theory Spec2Isabelle
  imports Main "HOL-Library.Multiset" "HOL-Library.Sublist"
begin

section \<open>Python strings\<close>

text \<open>
  A Python \<open>str\<close> is modelled as a \<^typ>\<open>string\<close>, one \<^typ>\<open>char\<close> per code point
  (code points up to 255; the operations below only look at ASCII characters and at
  white space). \<open>None\<close> and a missing dictionary key are \<^const>\<open>None\<close>.
\<close>

abbreviation NL :: char where
  "NL \<equiv> CHR 0x0A"

text \<open>\<open>str.isspace\<close> for one code point (the white space of \<open>str.strip()\<close>).\<close>

definition is_space :: "char \<Rightarrow> bool" where
  "is_space c = ((of_char c :: nat) \<in> {9, 10, 11, 12, 13, 28, 29, 30, 31, 32, 133, 160})"

definition lstrip :: "string \<Rightarrow> string" where
  "lstrip s = dropWhile is_space s"

definition rstrip :: "string \<Rightarrow> string" where
  "rstrip s = rev (dropWhile is_space (rev s))"

definition strip :: "string \<Rightarrow> string" where
  "strip s = rstrip (lstrip s)"

text \<open>
  \<open>s.replace(old, new)\<close>: the occurrences of \<open>old\<close> are replaced from left to right,
  without overlap. Every call of the program passes a non-empty \<open>old\<close>.
\<close>

function replace :: "string \<Rightarrow> string \<Rightarrow> string \<Rightarrow> string" where
  "replace old new [] = []"
| "replace old new (c # cs) =
     (if old \<noteq> [] \<and> take (length old) (c # cs) = old
      then new @ replace old new (drop (length old) (c # cs))
      else c # replace old new cs)"
  by pat_completeness auto
termination
  by (relation "measure (\<lambda>(old, new, s). length s)") (auto split: if_splits)

text \<open>\<open>sep.join(xs)\<close>.\<close>

fun join :: "string \<Rightarrow> string list \<Rightarrow> string" where
  "join sep [] = []"
| "join sep [x] = x"
| "join sep (x # y # ys) = x @ sep @ join sep (y # ys)"

text \<open>\<open>s.split("\n\n")\<close>: the pieces between the occurrences of the blank-line delimiter.\<close>

fun split_blank :: "string \<Rightarrow> string \<Rightarrow> string list" where
  "split_blank acc [] = [acc]"
| "split_blank acc [c] = [acc @ [c]]"
| "split_blank acc (c # d # cs) =
     (if c = NL \<and> d = NL then acc # split_blank [] cs
      else split_blank (acc @ [c]) (d # cs))"

definition split_paragraphs :: "string \<Rightarrow> string list" where
  "split_paragraphs s = split_blank [] s"

text \<open>\<open>str(n)\<close> for a natural number.\<close>

function str_nat :: "nat \<Rightarrow> string" where
  "str_nat n =
     (if n < 10 then [char_of (48 + n)]
      else str_nat (n div 10) @ [char_of (48 + n mod 10)])"
  by pat_completeness auto
termination
  by (relation "measure id") auto

declare str_nat.simps [simp del]

section \<open>DataProcessor: normalizer and thread flattener\<close>

text \<open>
  A message of the Slack export: \<open>msg.get("timestamp")\<close>, \<open>msg.get("text")\<close>, the
  \<open>summary\<close> of each entry of \<open>msg.get("files", [])\<close> and \<open>msg.get("thread_replies", [])\<close>.
  The timestamp is held as the string that \<open>str\<close> makes of it; a timestamp that is
  missing, null or zero is \<^const>\<open>None\<close>. The scripts sort the messages by
  timestamp before they process them: a list of messages below is the sorted list.
\<close>

datatype message = Message
  (timestamp: "string option")
  (msg_text: "string option")
  (files: "string option list")
  (thread_replies: "message list")

text \<open>\<open>x or ""\<close> for an optional string.\<close>

definition or_empty :: "string option \<Rightarrow> string" where
  "or_empty x = (case x of None \<Rightarrow> [] | Some s \<Rightarrow> s)"

text \<open>\<open>str(msg.get("timestamp") or "")\<close>.\<close>

definition msg_id_of :: "message \<Rightarrow> string" where
  "msg_id_of msg = or_empty (timestamp msg)"

text \<open>\<open>re.sub(r"[*_~]", "", text)\<close>.\<close>

definition is_markup :: "char \<Rightarrow> bool" where
  "is_markup c = (c = CHR ''*'' \<or> c = CHR ''_'' \<or> c = CHR ''~'')"

definition remove_markup :: "string \<Rightarrow> string" where
  "remove_markup s = filter (\<lambda>c. \<not> is_markup c) s"

definition clean_slack_markup :: "string \<Rightarrow> string" where
  "clean_slack_markup t =
     strip (replace ''&amp;'' ''&'' (replace ''&gt;'' ''>'' (replace ''&lt;'' ''<''
       (remove_markup t))))"

text \<open>The loop of \<open>_merge_message\<close> over the attached files, appending to \<open>parts\<close>.\<close>

fun file_parts :: "string list \<Rightarrow> string option list \<Rightarrow> string list" where
  "file_parts parts [] = parts"
| "file_parts parts (f # fs) =
     (let summary = or_empty f in
      if summary \<noteq> [] then file_parts (parts @ [''Attached file summary: '' @ summary]) fs
      else file_parts parts fs)"

definition merge_message :: "message \<Rightarrow> string" where
  "merge_message msg =
     (let main_text = or_empty (msg_text msg);
          parts = (if main_text \<noteq> [] then [clean_slack_markup main_text] else [])
      in join [NL] (file_parts parts (files msg)))"

text \<open>The loop of \<open>_flatten_messages\<close> over the replies, appending to \<open>sections\<close>.\<close>

fun reply_sections :: "string list \<Rightarrow> message list \<Rightarrow> string list" where
  "reply_sections sections [] = sections"
| "reply_sections sections (reply # rs) = reply_sections (sections @ [merge_message reply]) rs"

text \<open>The generator \<open>_flatten_messages\<close>, as the list of the pairs it yields.\<close>

fun flatten_messages :: "message list \<Rightarrow> (string \<times> string) list" where
  "flatten_messages [] = []"
| "flatten_messages (msg # msgs) =
     (let msg_id = msg_id_of msg in
      if msg_id = [] then flatten_messages msgs
      else (msg_id,
            join [NL, NL]
              (filter (\<lambda>s. s \<noteq> []) (reply_sections [merge_message msg] (thread_replies msg))))
           # flatten_messages msgs)"

text \<open>
  \<open>_chunk_documents\<close>. The splitting itself is done by the text splitter of langchain
  over the tiktoken encoding, which is a parameter here: \<open>split_text\<close>. A chunk is the
  dictionary with the keys \<open>timestamp\<close> and \<open>text\<close>, written as a pair.
\<close>

fun chunk_documents ::
  "(string \<Rightarrow> string list) \<Rightarrow> (string \<times> string) list \<Rightarrow> (string \<times> string) list" where
  "chunk_documents split_text [] = []"
| "chunk_documents split_text ((ts, t) # docs) =
     map (\<lambda>chunk. (ts, chunk)) (split_text t) @ chunk_documents split_text docs"

text \<open>
  Slack's escaping of message text, which the normalizer undoes: \<open>&\<close>, \<open><\<close> and \<open>>\<close>
  become \<open>&amp;\<close>, \<open>&lt;\<close> and \<open>&gt;\<close>. \<open>esc_by P\<close> escapes the characters that
  satisfy \<open>P\<close> only.
\<close>

definition entity :: "char \<Rightarrow> string" where
  "entity c =
     (if c = CHR ''&'' then ''&amp;''
      else if c = CHR ''<'' then ''&lt;''
      else if c = CHR ''>'' then ''&gt;''
      else [c])"

definition esc_by :: "(char \<Rightarrow> bool) \<Rightarrow> string \<Rightarrow> string" where
  "esc_by P u = concat (map (\<lambda>c. if P c then entity c else [c]) u)"

definition slack_escape :: "string \<Rightarrow> string" where
  "slack_escape u = esc_by (\<lambda>c. True) u"

text \<open>
  Decoding as the specification words it: one pass over the text from left to right, in
  which every occurrence of an entity is replaced by its character. The flags say which
  of \<open>&lt;\<close>, \<open>&gt;\<close> and \<open>&amp;\<close> are decoded; \<open>decode_entities\<close> decodes the three.
\<close>

function decode_pass :: "bool \<Rightarrow> bool \<Rightarrow> bool \<Rightarrow> string \<Rightarrow> string" where
  "decode_pass l g a [] = []"
| "decode_pass l g a (c # cs) =
     (if l \<and> take 4 (c # cs) = ''&lt;'' then CHR ''<'' # decode_pass l g a (drop 4 (c # cs))
      else if g \<and> take 4 (c # cs) = ''&gt;'' then CHR ''>'' # decode_pass l g a (drop 4 (c # cs))
      else if a \<and> take 5 (c # cs) = ''&amp;'' then CHR ''&'' # decode_pass l g a (drop 5 (c # cs))
      else c # decode_pass l g a cs)"
  by pat_completeness auto
termination
  by (relation "measure (\<lambda>(l, g, a, s). length s)") auto

definition decode_entities :: "string \<Rightarrow> string" where
  "decode_entities s = decode_pass True True True s"

section \<open>RagQuery: rerank and prompt construction\<close>

text \<open>A langchain \<open>Document\<close>: its text and its metadata dictionary.\<close>

record document =
  page_content :: string
  metadata :: "(string \<times> string) list"

text \<open>A document without metadata, for examples.\<close>

definition plain_doc :: "string \<Rightarrow> document" where
  "plain_doc s = \<lparr>page_content = s, metadata = []\<rparr>"

text \<open>\<open>xs[:k]\<close> for a Python integer \<open>k\<close>: a negative \<open>k\<close> counts from the end.\<close>

definition py_slice_to :: "int \<Rightarrow> 'a list \<Rightarrow> 'a list" where
  "py_slice_to k xs =
     (if 0 \<le> k then take (nat k) xs else take (length xs - nat (- k)) xs)"

text \<open>
  \<open>sorted(xs, key=key, reverse=True)\<close>: Python reverses the list, sorts it stably in
  ascending order and reverses the result, so that equal keys keep their order.
\<close>

definition sorted_reverse :: "('a \<Rightarrow> 'k::linorder) \<Rightarrow> 'a list \<Rightarrow> 'a list" where
  "sorted_reverse key xs = rev (sort_key key (rev xs))"

text \<open>
  The cross-encoder is a parameter: \<open>predict\<close> maps the list of (query, text) pairs to
  the list of their scores. Scores are taken in a linear order (no NaN).
\<close>

definition score_pairs :: "string \<Rightarrow> document list \<Rightarrow> (string \<times> string) list" where
  "score_pairs query docs = map (\<lambda>d. (query, page_content d)) docs"

definition rank_docs ::
  "((string \<times> string) list \<Rightarrow> 's::linorder list) \<Rightarrow> string \<Rightarrow> document list
    \<Rightarrow> (document \<times> 's) list" where
  "rank_docs predict query docs =
     (let pairs = score_pairs query docs;
          scores = predict pairs
      in sorted_reverse snd (zip docs scores))"

definition rerank ::
  "((string \<times> string) list \<Rightarrow> 's::linorder list) \<Rightarrow> string \<Rightarrow> document list \<Rightarrow> int
    \<Rightarrow> document list" where
  "rerank predict query docs k2 =
     (if docs = [] then []
      else map fst (py_slice_to k2 (rank_docs predict query docs)))"

text \<open>
  \<open>SYSTEM_PROMPT\<close>. The three characters of the source outside ASCII (two quotation
  marks around a replacement character) are written as their UTF-8 bytes.
\<close>

definition SYSTEM_PROMPT :: string where
  "SYSTEM_PROMPT =
     ''You are an AI assistant that answers employee questions using our internal knowledge base.'' @
     ''Our company is a social-casino game studio'' @
     ''The context contains Slack messages, file excerpts, or summaries retrieved for high relevance to the question'' @
     ''If the answer is not contained in the context, say you don't know.'' @
     ''Give concrete numbers, dates, names, and policies when available.'' @
     ''Preserve original terminology; add concise explanations only if helpful.'' @
     ''Whenever the context contains garbled symbols like '' @
     [CHR 0xE2, CHR 0x80, CHR 0x98, CHR 0xEF, CHR 0xBF, CHR 0xBD, CHR 0xE2, CHR 0x80, CHR 0x99] @
     '', intelligently infer and replace the missing text from surrounding context, then reply with a clean, coherent answer free of any garbled characters.''"

text \<open>\<open>enumerate(xs)\<close>.\<close>

definition enumerate_py :: "'a list \<Rightarrow> (nat \<times> 'a) list" where
  "enumerate_py xs = zip [0..<length xs] xs"

text \<open>A chat message is the dictionary with the keys \<open>role\<close> and \<open>content\<close>.\<close>

definition build_prompt :: "string \<Rightarrow> document list \<Rightarrow> (string \<times> string) list list" where
  "build_prompt query context_docs =
     (let context = join [NL, NL]
            (map (\<lambda>(i, d). ''[Doc '' @ str_nat (i + 1) @ '']'' @ [NL] @ page_content d)
               (enumerate_py context_docs));
          user_msg = ''Context:'' @ [NL] @ context @ [NL, NL] @
                     ''Question: '' @ query @ [NL, NL] @
                     ''Answer:''
      in [[(''role'', ''system''), (''content'', SYSTEM_PROMPT)],
          [(''role'', ''user''), (''content'', user_msg)]])"

text \<open>
  The chat backend is a parameter: \<open>chat_invoke model messages max_tokens\<close> is
  \<open>OpenAI(model=model, ...).invoke(messages, max_tokens=max_tokens)\<close>.
\<close>

definition generate_answer ::
  "(string \<Rightarrow> (string \<times> string) list list \<Rightarrow> int \<Rightarrow> string) \<Rightarrow> string \<Rightarrow> document list
    \<Rightarrow> string \<Rightarrow> int \<Rightarrow> string" where
  "generate_answer chat_invoke query context_docs model max_tokens =
     (let messages = build_prompt query context_docs
      in chat_invoke model messages max_tokens)"

text \<open>
  \<open>answer_query\<close>: \<open>similarity_search query k1\<close> is the vector store's search;
  \<open>generate_answer\<close> is called with its default \<open>max_tokens = 512\<close>.
\<close>

definition answer_query ::
  "(string \<Rightarrow> int \<Rightarrow> document list) \<Rightarrow> ((string \<times> string) list \<Rightarrow> 's::linorder list)
    \<Rightarrow> (string \<Rightarrow> (string \<times> string) list list \<Rightarrow> int \<Rightarrow> string)
    \<Rightarrow> string \<Rightarrow> int \<Rightarrow> int \<Rightarrow> string \<Rightarrow> string \<times> document list" where
  "answer_query similarity_search predict chat_invoke query k1 k2 llm_model =
     (let candidates = similarity_search query k1;
          top_docs = rerank predict query candidates k2;
          answer = generate_answer chat_invoke query top_docs llm_model 512
      in (answer, top_docs))"

text \<open>
  The context block as the specification words it: the documents in order, each under
  its label, counted from \<open>i\<close>, with a blank line between two of them.
\<close>

fun labelled_block :: "nat \<Rightarrow> document list \<Rightarrow> string" where
  "labelled_block i [] = []"
| "labelled_block i [d] = ''[Doc '' @ str_nat i @ '']'' @ [NL] @ page_content d"
| "labelled_block i (d # e # ds) =
     ''[Doc '' @ str_nat i @ '']'' @ [NL] @ page_content d @ [NL, NL] @ labelled_block (Suc i) (e # ds)"

section \<open>GraphBuilder: the checkpointed batch loop\<close>

subsection \<open>The checkpoint dictionary\<close>

text \<open>
  A Python dictionary keeps its keys in insertion order: \<open>d[k] = v\<close> replaces the value
  of a key in place and adds a new key at the end. The checkpoint maps a message id to
  an entry, itself a dictionary with the key \<open>status\<close>.
\<close>

type_synonym entry = "(string \<times> string) list"

type_synonym store = "(string \<times> entry) list"

fun dict_set :: "'k \<Rightarrow> 'v \<Rightarrow> ('k \<times> 'v) list \<Rightarrow> ('k \<times> 'v) list" where
  "dict_set k v [] = [(k, v)]"
| "dict_set k v (p # ps) = (if fst p = k then (k, v) # ps else p # dict_set k v ps)"

text \<open>\<open>msg_id in checkpoint and checkpoint[msg_id].get("status") == "done"\<close>.\<close>

definition is_done :: "store \<Rightarrow> string \<Rightarrow> bool" where
  "is_done checkpoint msg_id =
     (case map_of checkpoint msg_id of
        None \<Rightarrow> False
      | Some e \<Rightarrow> map_of e ''status'' = Some ''done'')"

definition pending_entry :: entry where
  "pending_entry = [(''status'', ''pending'')]"

text \<open>The \<open>result\<close> of the source is a plain string literal, not an f-string.\<close>

definition done_entry :: entry where
  "done_entry =
     [(''status'', ''done''),
      (''result'', ''Processed message {msg_id}: extracted {len(graph_docs)} graphs'')]"

definition error_entry :: "string \<Rightarrow> entry" where
  "error_entry err_msg = [(''status'', ''error''), (''error'', err_msg)]"

text \<open>The checkpoint file is absent (\<^const>\<open>None\<close>) or holds a store.\<close>

definition load_checkpoint :: "store option \<Rightarrow> store" where
  "load_checkpoint f = (case f of None \<Rightarrow> [] | Some ck \<Rightarrow> ck)"

subsection \<open>Content assembly\<close>

text \<open>The loop of \<open>extract_files_links\<close> over the files.\<close>

fun extra_info_lines :: "string list \<Rightarrow> string option list \<Rightarrow> string list" where
  "extra_info_lines ls [] = ls"
| "extra_info_lines ls (f # fs) =
     (let file_summary = or_empty f in
      if file_summary \<noteq> []
      then extra_info_lines (ls @ [''Attached file summary: '' @ file_summary]) fs
      else extra_info_lines ls fs)"

definition extract_files_links :: "message \<Rightarrow> string list" where
  "extract_files_links msg = extra_info_lines [] (files msg)"

definition extract_merge_text :: "string \<Rightarrow> message \<Rightarrow> string" where
  "extract_merge_text t msg =
     (let slack_text = replace ''~'' [] (replace ''_'' [] (replace ''*'' [] t));
          slack_text = replace ''&amp;'' ''&'' (replace ''&gt;'' ''>''
                         (replace ''&lt;'' ''<'' slack_text));
          extra = extract_files_links msg
      in if extra \<noteq> [] then strip slack_text @ [NL] @ join [NL] extra else slack_text)"

datatype py_error = NameError

text \<open>
  The variable \<open>slack_content\<close> is module-level: it is unbound (\<^const>\<open>None\<close>) until a
  message with a non-empty text assigns it, and it keeps its value from one message to
  the next. Reading it while unbound raises \<open>NameError\<close>.
\<close>

definition assemble_root :: "string option \<Rightarrow> message \<Rightarrow> string option" where
  "assemble_root sc msg =
     (let t = or_empty (msg_text msg) in
      if t \<noteq> [] then Some (extract_merge_text t msg) else sc)"

fun append_replies :: "string option \<Rightarrow> message list \<Rightarrow> py_error + string option" where
  "append_replies sc [] = Inr sc"
| "append_replies sc (reply # rs) =
     (let reply_text = or_empty (msg_text reply) in
      if reply_text \<noteq> [] then
        (case sc of
           None \<Rightarrow> Inl NameError
         | Some s \<Rightarrow> append_replies (Some (s @ [NL, NL] @ extract_merge_text reply_text reply)) rs)
      else append_replies sc rs)"

text \<open>Lines 112 to 124: the content that \<open>encoding.encode(slack_content)\<close> reads.\<close>

definition assemble :: "string option \<Rightarrow> message \<Rightarrow> py_error + string" where
  "assemble sc msg =
     (case append_replies (assemble_root sc msg) (thread_replies msg) of
        Inl e \<Rightarrow> Inl e
      | Inr None \<Rightarrow> Inl NameError
      | Inr (Some content) \<Rightarrow> Inr content)"


subsection \<open>The paragraph-packing chunker\<close>

definition token_limit :: nat where
  "token_limit = 3000"

definition mk_document :: "string \<Rightarrow> string \<Rightarrow> document" where
  "mk_document content msg_id = \<lparr>page_content = content, metadata = [(''id'', msg_id)]\<rparr>"

text \<open>
  The tokenizer is a parameter: \<open>ntok s\<close> is \<open>len(encoding.encode(s))\<close>.
  \<open>pack_paragraphs\<close> is the loop over the paragraphs with its variables
  \<open>current_chunk\<close>, \<open>current_tokens\<close> and \<open>documents\<close>, followed by the last flush.
\<close>

fun pack_paragraphs ::
  "(string \<Rightarrow> nat) \<Rightarrow> string \<Rightarrow> string list \<Rightarrow> string \<Rightarrow> nat \<Rightarrow> document list
    \<Rightarrow> document list" where
  "pack_paragraphs ntok msg_id [] current_chunk current_tokens documents =
     (if current_chunk \<noteq> [] then documents @ [mk_document (strip current_chunk) msg_id]
      else documents)"
| "pack_paragraphs ntok msg_id (para # ps) current_chunk current_tokens documents =
     (let para_tokens = ntok para in
      if current_tokens + para_tokens < token_limit
      then pack_paragraphs ntok msg_id ps (current_chunk @ para @ [NL, NL])
             (current_tokens + para_tokens) documents
      else pack_paragraphs ntok msg_id ps (para @ [NL, NL]) para_tokens
             (if current_chunk \<noteq> []
              then documents @ [mk_document (strip current_chunk) msg_id]
              else documents))"

definition make_documents :: "(string \<Rightarrow> nat) \<Rightarrow> string \<Rightarrow> string \<Rightarrow> document list" where
  "make_documents ntok msg_id content =
     (let tokens = ntok content in
      if tokens > token_limit
      then pack_paragraphs ntok msg_id (split_paragraphs content) [] 0 []
      else [mk_document content msg_id])"

subsection \<open>Backends, events and the loop\<close>

text \<open>
  The backends are parameters. They have a state of their own (\<open>'b\<close>: the language
  model and the graph database), so that a call may fail once and succeed when it is
  retried. A call returns \<open>Inl\<close> the message of the exception it raises, or \<open>Inr\<close> its
  result. \<open>'g\<close> is the type of a graph document.
\<close>

record ('b, 'g) backends =
  count_tokens :: "string \<Rightarrow> nat"
  convert_to_graph_documents :: "'b \<Rightarrow> document list \<Rightarrow> (string + 'g list) \<times> 'b"
  add_graph_documents :: "'b \<Rightarrow> 'g list \<Rightarrow> (string + unit) \<times> 'b"

text \<open>
  What a run does, in order: an assignment \<open>checkpoint[msg_id] = entry\<close>, a dump of the
  whole checkpoint to its file, a call of the extraction backend and a call of the graph
  insertion, the last two tagged with the id of the message being processed.
\<close>

datatype 'g event =
  Assign string entry
| Persist store
| Extract string document
| Insert string "'g list"

record 'b world =
  checkpoint :: store
  disk :: "store option"
  slack_content :: "string option"
  backend :: 'b

text \<open>The loop over the documents inside \<open>try\<close>; it stops at the first exception.\<close>

fun convert_all ::
  "('b, 'g) backends \<Rightarrow> string \<Rightarrow> document list \<Rightarrow> 'g list \<Rightarrow> 'b
    \<Rightarrow> (string + 'g list) \<times> 'b \<times> 'g event list" where
  "convert_all env msg_id [] graph_docs b = (Inr graph_docs, b, [])"
| "convert_all env msg_id (doc # ds) graph_docs b =
     (case convert_to_graph_documents env b [doc] of
        (Inl err, b') \<Rightarrow> (Inl err, b', [Extract msg_id doc])
      | (Inr result_docs, b') \<Rightarrow>
          (case convert_all env msg_id ds
                  (if result_docs \<noteq> [] then graph_docs @ result_docs else graph_docs) b' of
             (r, b'', evs) \<Rightarrow> (r, b'', Extract msg_id doc # evs)))"

text \<open>The body of \<open>try\<close> up to the insertion: the unit of work for one message.\<close>

definition unit_of_work ::
  "('b, 'g) backends \<Rightarrow> string \<Rightarrow> document list \<Rightarrow> 'b
    \<Rightarrow> (string + 'g list) \<times> 'b \<times> 'g event list" where
  "unit_of_work env msg_id documents b =
     (case convert_all env msg_id documents [] b of
        (Inl err, b', evs) \<Rightarrow> (Inl err, b', evs)
      | (Inr graph_docs, b', evs) \<Rightarrow>
          (case add_graph_documents env b' graph_docs of
             (Inl err, b'') \<Rightarrow> (Inl err, b'', evs @ [Insert msg_id graph_docs])
           | (Inr u, b'') \<Rightarrow> (Inr graph_docs, b'', evs @ [Insert msg_id graph_docs])))"

text \<open>
  One iteration of the loop. The result is the exception that leaves the loop, if any,
  the world after the iteration and the events of the iteration.
\<close>

definition process_message ::
  "('b, 'g) backends \<Rightarrow> message \<Rightarrow> 'b world \<Rightarrow> py_error option \<times> 'b world \<times> 'g event list" where
  "process_message env msg w =
     (let msg_id = msg_id_of msg in
      if msg_id = [] then (None, w, [])
      else if is_done (checkpoint w) msg_id then (None, w, [])
      else
        let ck1 = dict_set msg_id pending_entry (checkpoint w);
            w1 = w\<lparr>checkpoint := ck1, disk := Some ck1\<rparr>;
            ev1 = [Assign msg_id pending_entry, Persist ck1]
        in case assemble (slack_content w1) msg of
             Inl e \<Rightarrow> (Some e, w1, ev1)
           | Inr content \<Rightarrow>
               let w2 = w1\<lparr>slack_content := Some content\<rparr>;
                   documents = make_documents (count_tokens env) msg_id content
               in case unit_of_work env msg_id documents (backend w2) of
                    (Inr graph_docs, b', evs) \<Rightarrow>
                      let ck2 = dict_set msg_id done_entry ck1
                      in (None, w2\<lparr>backend := b', checkpoint := ck2, disk := Some ck2\<rparr>,
                          ev1 @ evs @ [Assign msg_id done_entry, Persist ck2])
                  | (Inl err_msg, b', evs) \<Rightarrow>
                      let ck2 = dict_set msg_id (error_entry err_msg) ck1
                      in (None, w2\<lparr>backend := b', checkpoint := ck2, disk := Some ck2\<rparr>,
                          ev1 @ evs @ [Assign msg_id (error_entry err_msg), Persist ck2]))"

fun process_messages ::
  "('b, 'g) backends \<Rightarrow> message list \<Rightarrow> 'b world
    \<Rightarrow> py_error option \<times> 'b world \<times> 'g event list" where
  "process_messages env [] w = (None, w, [])"
| "process_messages env (msg # msgs) w =
     (case process_message env msg w of
        (Some e, w', evs) \<Rightarrow> (Some e, w', evs)
      | (None, w', evs) \<Rightarrow>
          (case process_messages env msgs w' of
             (r, w'', evs') \<Rightarrow> (r, w'', evs @ evs')))"

text \<open>
  The script from the loading of the checkpoint on, for the list of messages as sorted
  by timestamp, the checkpoint file and the state of the backends.
\<close>

definition graph_builder ::
  "('b, 'g) backends \<Rightarrow> message list \<Rightarrow> store option \<Rightarrow> 'b
    \<Rightarrow> py_error option \<times> 'b world \<times> 'g event list" where
  "graph_builder env messages ckpt_file b =
     process_messages env messages
       \<lparr>checkpoint = load_checkpoint ckpt_file, disk = ckpt_file,
        slack_content = None, backend = b\<rparr>"

subsection \<open>Observations on a run\<close>

text \<open>An event is a call of the unit of work (extraction or insertion) for the id.\<close>

fun is_work_for :: "string \<Rightarrow> 'g event \<Rightarrow> bool" where
  "is_work_for i (Extract j d) = (i = j)"
| "is_work_for i (Insert j g) = (i = j)"
| "is_work_for i (Assign j e) = False"
| "is_work_for i (Persist st) = False"

fun is_work :: "'g event \<Rightarrow> bool" where
  "is_work (Extract j d) = True"
| "is_work (Insert j g) = True"
| "is_work (Assign j e) = False"
| "is_work (Persist st) = False"

text \<open>
  \<open>write_through on_disk evs\<close>: every assignment to the checkpoint is followed at once
  by a dump of the whole updated store, and every backend call for an id happens while
  the store on disk has that id as \<open>pending\<close>.
\<close>

fun write_through :: "store \<Rightarrow> 'g event list \<Rightarrow> bool" where
  "write_through on_disk [] = True"
| "write_through on_disk (Assign i e # Persist st # evs) =
     (st = dict_set i e on_disk \<and> write_through st evs)"
| "write_through on_disk (Extract i d # evs) =
     (map_of on_disk i = Some pending_entry \<and> write_through on_disk evs)"
| "write_through on_disk (Insert i g # evs) =
     (map_of on_disk i = Some pending_entry \<and> write_through on_disk evs)"
| "write_through on_disk (Assign i e # evs) = False"
| "write_through on_disk (Persist st # evs) = False"

text \<open>The store on disk after a list of events, starting from \<open>on_disk\<close>.\<close>

fun disk_after :: "store \<Rightarrow> 'g event list \<Rightarrow> store" where
  "disk_after on_disk [] = on_disk"
| "disk_after on_disk (Persist st # evs) = disk_after st evs"
| "disk_after on_disk (Assign i e # evs) = disk_after on_disk evs"
| "disk_after on_disk (Extract i d # evs) = disk_after on_disk evs"
| "disk_after on_disk (Insert i g # evs) = disk_after on_disk evs"

text \<open>
  Backends for closed evaluations. Their state counts the calls; the extraction
  returns the texts it is given and raises on the text \<open>bad\<close>; the tokenizer counts
  1000 tokens per character.
\<close>

definition sample_backends :: "(nat, string) backends" where
  "sample_backends =
     \<lparr>count_tokens = (\<lambda>s. 1000 * length s),
      convert_to_graph_documents =
        (\<lambda>b ds. (if ''bad'' \<in> set (map page_content ds) then Inl ''extraction failed''
                  else Inr (map page_content ds), Suc b)),
      add_graph_documents = (\<lambda>b g. (Inr (), Suc b))\<rparr>"






section \<open>Properties of the string operations\<close>

lemma set_strip: "set (strip s) \<subseteq> set s"
proof
  fix x assume "x \<in> set (strip s)"
  then have "x \<in> set (dropWhile is_space (rev (dropWhile is_space s)))"
    by (simp add: strip_def rstrip_def lstrip_def)
  then have "x \<in> set (dropWhile is_space s)"
    using set_dropWhileD by fastforce
  then show "x \<in> set s" by (rule set_dropWhileD)
qed

lemma rstrip_take: "rstrip x = take (length x - length (takeWhile is_space (rev x))) x"
  by (simp add: rstrip_def dropWhile_eq_drop rev_drop)

lemma strip_hd: "strip s \<noteq> [] \<Longrightarrow> \<not> is_space (hd (strip s))"
proof -
  assume ne: "strip s \<noteq> []"
  let ?x = "lstrip s"
  let ?k = "length ?x - length (takeWhile is_space (rev ?x))"
  have eq: "strip s = take ?k ?x" by (simp add: strip_def rstrip_take)
  with ne have "?x \<noteq> []" and "0 < ?k" by auto
  then have "hd (strip s) = hd ?x" using eq by (cases ?x) (auto simp: take_Cons')
  moreover have "\<not> is_space (hd ?x)" using \<open>?x \<noteq> []\<close> unfolding lstrip_def by (rule hd_dropWhile)
  ultimately show ?thesis by simp
qed

lemma strip_last: "strip s \<noteq> [] \<Longrightarrow> \<not> is_space (last (strip s))"
proof -
  assume ne: "strip s \<noteq> []"
  then have "dropWhile is_space (rev (lstrip s)) \<noteq> []" by (simp add: strip_def rstrip_def)
  then have "\<not> is_space (hd (dropWhile is_space (rev (lstrip s))))" by (rule hd_dropWhile)
  then show ?thesis using ne by (simp add: strip_def rstrip_def last_rev)
qed

lemma set_replace: "set (replace old new s) \<subseteq> set s \<union> set new"
proof (induction old new s rule: replace.induct)
  case (1 old new)
  then show ?case by simp
next
  case (2 old new c cs)
  then show ?case using set_drop_subset[of "length old" "c # cs"]
    by (auto simp del: drop_Suc_Cons)
qed

section \<open>The normalizer\<close>

lemma esc_by_Cons: "esc_by P (c # u) = (if P c then entity c else [c]) @ esc_by P u"
  by (simp add: esc_by_def)

lemma esc_by_Nil: "esc_by P [] = []"
  by (simp add: esc_by_def)

lemma decode_lt: "replace ''&lt;'' ''<'' (esc_by (\<lambda>c. True) u) = esc_by (\<lambda>c. c \<noteq> CHR ''<'') u"
  by (induction u) (simp_all add: esc_by_Cons esc_by_Nil entity_def)

lemma decode_gt:
  "replace ''&gt;'' ''>'' (esc_by (\<lambda>c. c \<noteq> CHR ''<'') u)
     = esc_by (\<lambda>c. c \<noteq> CHR ''<'' \<and> c \<noteq> CHR ''>'') u"
  by (induction u) (simp_all add: esc_by_Cons esc_by_Nil entity_def)

lemma decode_amp: "replace ''&amp;'' ''&'' (esc_by (\<lambda>c. c \<noteq> CHR ''<'' \<and> c \<noteq> CHR ''>'') u) = u"
  by (induction u) (simp_all add: esc_by_Cons esc_by_Nil entity_def)

lemma remove_markup_escape:
  "\<forall>c\<in>set u. \<not> is_markup c \<Longrightarrow> remove_markup (slack_escape u) = slack_escape u"
  by (induction u)
     (auto simp: remove_markup_def slack_escape_def esc_by_Cons esc_by_Nil entity_def is_markup_def)

lemma clean_escape:
  "\<forall>c\<in>set u. \<not> is_markup c \<Longrightarrow> clean_slack_markup (slack_escape u) = strip u"
  by (simp add: clean_slack_markup_def remove_markup_escape)
     (simp add: slack_escape_def decode_lt decode_gt decode_amp)

lemma clean_no_markup: "c \<in> set (clean_slack_markup t) \<Longrightarrow> \<not> is_markup c"
proof -
  assume "c \<in> set (clean_slack_markup t)"
  then have "c \<in> set (replace ''&amp;'' ''&'' (replace ''&gt;'' ''>''
                 (replace ''&lt;'' ''<'' (remove_markup t))))"
    using set_strip by (auto simp: clean_slack_markup_def)
  then have "c \<in> set (remove_markup t) \<or> c \<in> {CHR ''&'', CHR ''<'', CHR ''>''}"
    using set_replace[of "''&amp;''" "''&''"] set_replace[of "''&gt;''" "''>''"]
      set_replace[of "''&lt;''" "''<''"]
    by fastforce
  then show ?thesis by (auto simp: remove_markup_def is_markup_def)
qed

lemma clean_empty: "clean_slack_markup [] = []"
  by (simp add: clean_slack_markup_def remove_markup_def strip_def rstrip_def lstrip_def)

section \<open>Successive replacement is one decoding pass\<close>

lemma replace_lt_pass: "replace ''&lt;'' ''<'' s = decode_pass True False False s"
proof (induction s rule: length_induct)
  case (1 s)
  show ?case
  proof (cases s)
    case Nil
    then show ?thesis by simp
  next
    case (Cons c cs)
    have a: "replace ''&lt;'' ''<'' (drop 4 s) = decode_pass True False False (drop 4 s)"
      using 1 Cons by simp
    have b: "replace ''&lt;'' ''<'' cs = decode_pass True False False cs"
      using 1 Cons by simp
    show ?thesis using a b Cons by (simp add: eval_nat_numeral)
  qed
qed

text \<open>
  A pass that does not decode \<open>&amp;\<close> neither creates nor destroys a run of characters
  that are none of \<open>&\<close>, \<open><\<close>, \<open>>\<close> at the head of the text.
\<close>

lemma decode_pass_head:
  assumes "CHR ''&'' \<notin> set p" "CHR ''<'' \<notin> set p" "CHR ''>'' \<notin> set p"
  shows "(take (length p) (decode_pass l g False cs) = p) = (take (length p) cs = p)"
  using assms
proof (induction p arbitrary: cs)
  case Nil
  then show ?case by simp
next
  case (Cons x p)
  show ?case
  proof (cases cs)
    case Nil
    then show ?thesis by simp
  next
    case (Cons c cs')
    have ih: "(take (length p) (decode_pass l g False cs') = p) = (take (length p) cs' = p)"
      using Cons.IH Cons.prems by simp
    show ?thesis using ih Cons Cons.prems by auto
  qed
qed

lemma head_gt: "(take 3 (decode_pass l g False cs) = ''gt;'') = (take 3 cs = ''gt;'')"
  using decode_pass_head[of "''gt;''" l g cs] by (simp add: eval_nat_numeral)

lemma head_amp: "(take 4 (decode_pass l g False cs) = ''amp;'') = (take 4 cs = ''amp;'')"
  using decode_pass_head[of "''amp;''" l g cs] by (simp add: eval_nat_numeral)

lemma starts_with: "take (length p) s = p \<Longrightarrow> s = p @ drop (length p) s"
  by (metis append_take_drop_id)

lemma replace_gt_pass:
  "replace ''&gt;'' ''>'' (decode_pass True False False s) = decode_pass True True False s"
proof (induction s rule: length_induct)
  case (1 s)
  show ?case
  proof (cases s)
    case Nil
    then show ?thesis by simp
  next
    case (Cons c cs)
    have ih4: "replace ''&gt;'' ''>'' (decode_pass True False False (drop 4 s))
                = decode_pass True True False (drop 4 s)"
      using 1 Cons by simp
    have ih1: "replace ''&gt;'' ''>'' (decode_pass True False False cs)
                = decode_pass True True False cs"
      using 1 Cons by simp
    consider (lt) "take 4 s = ''&lt;''" | (gt) "take 4 s = ''&gt;''"
      | (other) "take 4 s \<noteq> ''&lt;''" "take 4 s \<noteq> ''&gt;''" by blast
    then show ?thesis
    proof cases
      case lt
      then show ?thesis using ih4 Cons by simp
    next
      case gt
      then have "s = ''&gt;'' @ drop 4 s" using starts_with[of "''&gt;''" s] by (simp add: eval_nat_numeral)
      then obtain rest where s: "s = ''&gt;'' @ rest" and r: "rest = drop 4 s" by blast
      show ?thesis using ih4 by (simp add: s r[symmetric])
    next
      case other
      then have "take 4 (c # decode_pass True False False cs) \<noteq> ''&gt;''"
        using Cons by (auto simp: head_gt)
      then show ?thesis using other ih1 Cons by (auto simp: eval_nat_numeral)
    qed
  qed
qed

lemma replace_amp_pass:
  "replace ''&amp;'' ''&'' (decode_pass True True False s) = decode_pass True True True s"
proof (induction s rule: length_induct)
  case (1 s)
  show ?case
  proof (cases s)
    case Nil
    then show ?thesis by simp
  next
    case (Cons c cs)
    have ih4: "replace ''&amp;'' ''&'' (decode_pass True True False (drop 4 s))
                = decode_pass True True True (drop 4 s)"
      using 1 Cons by simp
    have ih5: "replace ''&amp;'' ''&'' (decode_pass True True False (drop 5 s))
                = decode_pass True True True (drop 5 s)"
      using 1 Cons by simp
    have ih1: "replace ''&amp;'' ''&'' (decode_pass True True False cs)
                = decode_pass True True True cs"
      using 1 Cons by simp
    consider (lt) "take 4 s = ''&lt;''" | (gt) "take 4 s = ''&gt;''"
      | (amp) "take 5 s = ''&amp;''"
      | (other) "take 4 s \<noteq> ''&lt;''" "take 4 s \<noteq> ''&gt;''" "take 5 s \<noteq> ''&amp;''" by blast
    then show ?thesis
    proof cases
      case lt
      then show ?thesis using ih4 Cons by simp
    next
      case gt
      then show ?thesis using ih4 Cons by auto
    next
      case amp
      then have "s = ''&amp;'' @ drop 5 s" using starts_with[of "''&amp;''" s] by (simp add: eval_nat_numeral)
      then obtain rest where s: "s = ''&amp;'' @ rest" and r: "rest = drop 5 s" by blast
      show ?thesis using ih5 by (simp add: s r[symmetric])
    next
      case other
      then have "take 5 (c # decode_pass True True False cs) \<noteq> ''&amp;''"
        using Cons by (auto simp: head_amp)
      then show ?thesis using other ih1 Cons by (auto simp: eval_nat_numeral)
    qed
  qed
qed

lemma clean_decodes:
  "clean_slack_markup t = strip (decode_entities (remove_markup t))"
  by (simp add: clean_slack_markup_def decode_entities_def replace_lt_pass replace_gt_pass
      replace_amp_pass)

lemmas string_eval =
  clean_slack_markup_def remove_markup_def strip_def rstrip_def lstrip_def is_markup_def
  is_space_def

text \<open>
  Claim C9, as the code has it. For every text, the result of the normalizer is the text
  without its markup characters \<open>*\<close>, \<open>_\<close>, \<open>~\<close>, then with every occurrence of the
  three entities \<open>&lt;\<close>, \<open>&gt;\<close> and \<open>&amp;\<close> decoded in one pass, then trimmed of
  the white space at both ends. The normalizer is a total function; it maps the empty
  string to the empty string; its result contains none of the markup characters; its
  result has no white space at either end; and on the escaped form of a text without
  markup characters it returns that text, trimmed.
\<close>

theorem clean_slack_markup_three_entities:
  "clean_slack_markup t = strip (decode_entities (filter (\<lambda>c. \<not> is_markup c) t))
   \<and> clean_slack_markup [] = []
   \<and> (\<forall>c\<in>set (clean_slack_markup t). \<not> is_markup c)
   \<and> (clean_slack_markup t = []
        \<or> (\<not> is_space (hd (clean_slack_markup t)) \<and> \<not> is_space (last (clean_slack_markup t))))
   \<and> ((\<forall>c\<in>set u. \<not> is_markup c) \<longrightarrow> clean_slack_markup (slack_escape u) = strip u)"
proof -
  have full: "clean_slack_markup t = strip (decode_entities (filter (\<lambda>c. \<not> is_markup c) t))"
    using clean_decodes[of t] by (simp add: remove_markup_def)
  have "clean_slack_markup t = strip (replace ''&amp;'' ''&'' (replace ''&gt;'' ''>''
          (replace ''&lt;'' ''<'' (remove_markup t))))"
    by (simp add: clean_slack_markup_def)
  then have "clean_slack_markup t = []
     \<or> (\<not> is_space (hd (clean_slack_markup t)) \<and> \<not> is_space (last (clean_slack_markup t)))"
    using strip_hd strip_last by metis
  then show ?thesis
    using full clean_empty clean_no_markup clean_escape by blast
qed

theorem clean_slack_markup_three_entities_witness:
  "list_all (\<lambda>c. \<not> is_markup c) '' a<b & c>d ''
   \<and> clean_slack_markup (slack_escape '' a<b & c>d '') = ''a<b & c>d''
   \<and> clean_slack_markup ''  *Hi* &lt;b&gt; &amp;amp; _x_ ~y~ '' = ''Hi <b> &amp; x y''
   \<and> strip (decode_entities (filter (\<lambda>c. \<not> is_markup c) ''  *Hi* &lt;b&gt; &amp;amp; _x_ ~y~ ''))
       = ''Hi <b> &amp; x y''"
  using clean_slack_markup_three_entities
    [of "''  *Hi* &lt;b&gt; &amp;amp; _x_ ~y~ ''" "'' a<b & c>d ''"]
  by (simp add: string_eval decode_entities_def)

text \<open>
  Claim C9 as stated speaks of four entities. Only three are decoded: \<open>&quot;\<close>
  and the apostrophe entities pass through unchanged.
\<close>

theorem clean_slack_markup_quot_counterexample:
  "clean_slack_markup ''say &quot;hi&quot; &#39;x&#39;'' = ''say &quot;hi&quot; &#39;x&#39;''
   \<and> clean_slack_markup ''&quot;'' \<noteq> [CHR 0x22]
   \<and> clean_slack_markup ''&#39;'' \<noteq> [CHR 0x27]
   \<and> clean_slack_markup ''&apos;'' \<noteq> [CHR 0x27]"
  by (simp add: string_eval)

section \<open>The thread flattener\<close>

lemma file_parts_eq:
  "file_parts parts fs
     = parts @ map (\<lambda>s. ''Attached file summary: '' @ s) (filter (\<lambda>s. s \<noteq> []) (map or_empty fs))"
  by (induction fs arbitrary: parts) (simp_all add: Let_def)

lemma reply_sections_eq: "reply_sections secs rs = secs @ map merge_message rs"
  by (induction rs arbitrary: secs) simp_all

lemma flatten_messages_eq:
  "flatten_messages msgs
     = map (\<lambda>m. (msg_id_of m,
                 join [NL, NL] (filter (\<lambda>s. s \<noteq> []) (map merge_message (m # thread_replies m)))))
         (filter (\<lambda>m. msg_id_of m \<noteq> []) msgs)"
  by (induction msgs) (simp_all add: Let_def reply_sections_eq)

text \<open>
  Claim C6. The flattener yields one pair per message with a non-empty id, in input
  order; the text joins with a blank line the non-empty sections of the root and of its
  replies, in that order; a section joins with a newline the normalized body (when the
  text is not empty) and one labelled line per non-empty file summary. A root with two
  replies whose three sections are not empty yields these three sections, root first.
\<close>

theorem flatten_messages_sections:
  "flatten_messages msgs
     = map (\<lambda>m. (msg_id_of m,
                 join [NL, NL] (filter (\<lambda>s. s \<noteq> []) (map merge_message (m # thread_replies m)))))
         (filter (\<lambda>m. msg_id_of m \<noteq> []) msgs)
   \<and> merge_message m
     = join [NL]
         ((if or_empty (msg_text m) = [] then [] else [clean_slack_markup (or_empty (msg_text m))])
          @ map (\<lambda>s. ''Attached file summary: '' @ s)
              (filter (\<lambda>s. s \<noteq> []) (map or_empty (files m))))
   \<and> (msg_id_of root \<noteq> [] \<and> thread_replies root = [r1, r2]
        \<and> merge_message root \<noteq> [] \<and> merge_message r1 \<noteq> [] \<and> merge_message r2 \<noteq> []
      \<longrightarrow> flatten_messages [root]
          = [(msg_id_of root,
              merge_message root @ [NL, NL] @ merge_message r1 @ [NL, NL] @ merge_message r2)])"
  by (simp add: flatten_messages_eq merge_message_def file_parts_eq Let_def)

theorem flatten_messages_sections_witness:
  "msg_id_of (Message (Some ''1'') (Some ''*root* &amp; co'') [Some ''plan'', None, Some '''']
        [Message (Some ''1.1'') (Some ''first _reply_'') [] [],
         Message (Some ''1.2'') None [Some ''chart''] []]) \<noteq> []
   \<and> merge_message (Message (Some ''1'') (Some ''*root* &amp; co'') [Some ''plan'', None, Some '''']
        [Message (Some ''1.1'') (Some ''first _reply_'') [] [],
         Message (Some ''1.2'') None [Some ''chart''] []]) \<noteq> []
   \<and> merge_message (Message (Some ''1.1'') (Some ''first _reply_'') [] []) \<noteq> []
   \<and> merge_message (Message (Some ''1.2'') None [Some ''chart''] []) \<noteq> []
   \<and> flatten_messages
     [Message (Some ''1'') (Some ''*root* &amp; co'') [Some ''plan'', None, Some '''']
        [Message (Some ''1.1'') (Some ''first _reply_'') [] [],
         Message (Some ''1.2'') None [Some ''chart''] []]]
   = [(''1'', ''root & co'' @ [NL] @ ''Attached file summary: plan'' @ [NL, NL]
              @ ''first reply'' @ [NL, NL] @ ''Attached file summary: chart'')]"
  using flatten_messages_sections
    [of "[]"
     "Message (Some ''1.1'') (Some ''first _reply_'') [] []"
     "Message (Some ''1'') (Some ''*root* &amp; co'') [Some ''plan'', None, Some '''']
        [Message (Some ''1.1'') (Some ''first _reply_'') [] [],
         Message (Some ''1.2'') None [Some ''chart''] []]"
     "Message (Some ''1.1'') (Some ''first _reply_'') [] []"
     "Message (Some ''1.2'') None [Some ''chart''] []"]
  by (simp add: msg_id_of_def or_empty_def merge_message_def string_eval)

text \<open>Messages without an id and empty sections are left out.\<close>

lemma flatten_messages_example:
  "flatten_messages
     [Message None (Some ''no id'') [] [],
      Message (Some ''2'') (Some ''two'') [] [Message None (Some '''') [] []]]
   = [(''2'', ''two'')]"
  by (simp add: msg_id_of_def or_empty_def merge_message_def string_eval)

section \<open>The indexing chunker\<close>

text \<open>
  The chunks of one document are the pieces returned by the splitter, each under the
  timestamp of the document; how many pieces a text gives is decided by the splitter.
\<close>

lemma chunk_documents_single:
  "chunk_documents split_text [(ts, t)] = map (\<lambda>chunk. (ts, chunk)) (split_text t)"
  by simp

lemma chunk_documents_append:
  "chunk_documents split_text (xs @ ys)
     = chunk_documents split_text xs @ chunk_documents split_text ys"
  by (induction xs) auto

section \<open>The reranker\<close>

lemma mset_sorted_reverse: "mset (sorted_reverse key xs) = mset xs"
  by (simp add: sorted_reverse_def)



lemma sorted_reverse_stable:
  "filter (\<lambda>y. key y = k) (sorted_reverse key xs) = filter (\<lambda>y. key y = k) xs"
proof -
  have "filter (\<lambda>y. key y = k) (sorted_reverse key xs)
          = rev (filter (\<lambda>y. key y = k) (sort_key key (rev xs)))"
    by (simp add: sorted_reverse_def rev_filter)
  also have "\<dots> = rev (filter (\<lambda>y. key y = k) (rev xs))"
    by (simp only: sort_key_stable)
  also have "\<dots> = filter (\<lambda>y. key y = k) xs"
    by (simp add: rev_filter)
  finally show ?thesis .
qed


lemma rerank_eq: "rerank predict query docs k2 = map fst (py_slice_to k2 (rank_docs predict query docs))"
  by (simp add: rerank_def rank_docs_def sorted_reverse_def py_slice_to_def)

lemma py_slice_to_prefix: "prefix (py_slice_to k xs) xs"
  by (simp add: py_slice_to_def take_is_prefix)

lemma mset_prefix_subseteq: "prefix xs ys \<Longrightarrow> mset xs \<subseteq># mset ys"
  by (auto simp: prefix_def)

lemma mset_rerank_subseteq: "mset (rerank predict query docs k2) \<subseteq># mset docs"
proof -
  let ?scores = "predict (score_pairs query docs)"
  let ?ranked = "rank_docs predict query docs"
  have "mset (py_slice_to k2 ?ranked) \<subseteq># mset ?ranked"
    by (rule mset_prefix_subseteq) (rule py_slice_to_prefix)
  also have "mset ?ranked = mset (zip docs ?scores)"
    by (simp add: rank_docs_def mset_sorted_reverse)
  finally have "image_mset fst (mset (py_slice_to k2 ?ranked)) \<subseteq># image_mset fst (mset (zip docs ?scores))"
    by (rule image_mset_subseteq_mono)
  then have "mset (rerank predict query docs k2) \<subseteq># mset (map fst (zip docs ?scores))"
    by (simp add: rerank_eq)
  also have "mset (map fst (zip docs ?scores)) \<subseteq># mset docs"
    by (simp add: map_fst_zip_take mset_prefix_subseteq take_is_prefix)
  finally show ?thesis .
qed



text \<open>
  Claim C10. The documents returned by \<open>rerank\<close> are, with multiplicity, among the
  candidates, and they are the first components of a slice of the ranking in which,
  for every score, the entries with that score stand in the order of the input.
\<close>

theorem rerank_sublist_stable:
  "mset (rerank predict query docs k2) \<subseteq># mset docs
   \<and> rerank predict query docs k2 = map fst (py_slice_to k2 (rank_docs predict query docs))
   \<and> prefix (filter (\<lambda>p. snd p = v) (py_slice_to k2 (rank_docs predict query docs)))
        (filter (\<lambda>p. snd p = v) (zip docs (predict (score_pairs query docs))))"
proof -
  let ?scores = "predict (score_pairs query docs)"
  let ?ranked = "rank_docs predict query docs"
  have "prefix (filter (\<lambda>p. snd p = v) (py_slice_to k2 ?ranked)) (filter (\<lambda>p. snd p = v) ?ranked)"
    by (rule filter_mono_prefix) (rule py_slice_to_prefix)
  moreover have "filter (\<lambda>p. snd p = v) ?ranked = filter (\<lambda>p. snd p = v) (zip docs ?scores)"
    by (simp add: rank_docs_def sorted_reverse_stable)
  ultimately show ?thesis
    using mset_rerank_subseteq rerank_eq by metis
qed

section \<open>The prompt of the answer synthesis\<close>

lemma zip_upt_Cons:
  "zip [i..<i + length (d # ds)] (d # ds) = (i, d) # zip [Suc i..<Suc i + length ds] ds"
  by (simp add: upt_conv_Cons del: upt_Suc)

lemma join_Cons: "join sep (x # xs) = (if xs = [] then x else x @ sep @ join sep xs)"
  by (cases xs) simp_all

lemma labelled_block_Cons:
  "labelled_block i (d # ds)
     = ''[Doc '' @ str_nat i @ '']'' @ [NL] @ page_content d
       @ (if ds = [] then [] else [NL, NL] @ labelled_block (Suc i) ds)"
  by (cases ds) simp_all

lemma join_labels:
  "join [NL, NL]
     (map (\<lambda>(i, d). ''[Doc '' @ str_nat (i + 1) @ '']'' @ [NL] @ page_content d)
        (zip [i..<i + length ds] ds))
   = labelled_block (Suc i) ds"
proof (induction ds arbitrary: i)
  case Nil
  then show ?case by simp
next
  case (Cons d ds)
  show ?case
    unfolding zip_upt_Cons list.map join_Cons labelled_block_Cons Cons.IH[of "Suc i"]
    by (cases ds) (simp_all del: upt_Suc)
qed

lemma context_block:
  "join [NL, NL]
     (map (\<lambda>(i, d). ''[Doc '' @ str_nat (i + 1) @ '']'' @ [NL] @ page_content d)
        (enumerate_py ds))
   = labelled_block 1 ds"
  using join_labels[of 0 ds] by (simp add: enumerate_py_def)

text \<open>
  Claim C8, as the code has it. The prompt is the fixed system instruction followed by
  one user message \<open>Context:\<close>, newline, the labelled documents separated by blank
  lines, blank line, \<open>Question: \<close> and the query on the same line, blank line,
  \<open>Answer:\<close>. The chat backend receives this prompt together with the cap
  \<open>max_tokens\<close>, which is 512 in \<open>answer_query\<close>.
\<close>

theorem build_prompt_template:
  "build_prompt query docs
     = [[(''role'', ''system''), (''content'', SYSTEM_PROMPT)],
        [(''role'', ''user''),
         (''content'', ''Context:'' @ [NL] @ labelled_block 1 docs @ [NL, NL]
                        @ ''Question: '' @ query @ [NL, NL] @ ''Answer:'')]]
   \<and> generate_answer chat_invoke query docs model max_tokens
     = chat_invoke model (build_prompt query docs) max_tokens
   \<and> fst (answer_query similarity_search predict chat_invoke query k1 k2 model)
     = chat_invoke model
         (build_prompt query (rerank predict query (similarity_search query k1) k2)) 512"
proof -
  have "build_prompt query ds
     = [[(''role'', ''system''), (''content'', SYSTEM_PROMPT)],
        [(''role'', ''user''),
         (''content'', ''Context:'' @ [NL] @ labelled_block 1 ds @ [NL, NL]
                        @ ''Question: '' @ query @ [NL, NL] @ ''Answer:'')]]" for ds
    unfolding build_prompt_def Let_def context_block by (rule refl)
  then show ?thesis
    by (simp add: generate_answer_def answer_query_def Let_def)
qed

lemma str_nat_1: "str_nat 1 = ''1''"
  by code_simp

lemma str_nat_2: "str_nat 2 = ''2''"
  by code_simp

text \<open>
  Claim C8 as stated puts the query on a line of its own after \<open>Question:\<close>. The
  code separates them by one space.
\<close>

theorem build_prompt_question_counterexample:
  "build_prompt ''why?'' [plain_doc ''a'', plain_doc ''b'']
     = [[(''role'', ''system''), (''content'', SYSTEM_PROMPT)],
        [(''role'', ''user''),
         (''content'', ''Context:'' @ [NL] @ ''[Doc 1]'' @ [NL] @ ''a'' @ [NL, NL]
                        @ ''[Doc 2]'' @ [NL] @ ''b'' @ [NL, NL]
                        @ ''Question: why?'' @ [NL, NL] @ ''Answer:'')]]
   \<and> build_prompt ''why?'' [plain_doc ''a'', plain_doc ''b'']
     \<noteq> [[(''role'', ''system''), (''content'', SYSTEM_PROMPT)],
        [(''role'', ''user''),
         (''content'', ''Context:'' @ [NL] @ ''[Doc 1]'' @ [NL] @ ''a'' @ [NL, NL]
                        @ ''[Doc 2]'' @ [NL] @ ''b'' @ [NL, NL]
                        @ ''Question:'' @ [NL] @ ''why?'' @ [NL, NL] @ ''Answer:'')]]"
  by (simp add: build_prompt_def enumerate_py_def plain_doc_def upt_conv_Cons str_nat_1 str_nat_2
      del: One_nat_def)

section \<open>Lookups in the checkpoint\<close>

lemma map_of_dict_set: "map_of (dict_set k v ps) = (map_of ps)(k \<mapsto> v)"
  by (induction ps) (auto simp: fun_eq_iff)

lemma is_done_dict_set_other: "i \<noteq> k \<Longrightarrow> is_done (dict_set k v ck) i = is_done ck i"
  by (simp add: is_done_def map_of_dict_set)



section \<open>Events of the unit of work\<close>

lemma convert_all_events:
  "convert_all env i docs g b = (r, b', evs) \<Longrightarrow>
     list_all (is_work_for i) evs \<and> (docs \<noteq> [] \<longrightarrow> evs \<noteq> [])
     \<and> ((\<exists>gd. r = Inr gd) \<longrightarrow> evs = map (Extract i) docs)"
proof (induction docs arbitrary: g b r b' evs)
  case Nil
  then show ?case by auto
next
  case (Cons d ds)
  show ?case
  proof (cases "convert_to_graph_documents env b [d]")
    case (Pair res b1)
    show ?thesis
    proof (cases res)
      case (Inl err)
      with Pair Cons.prems show ?thesis by auto
    next
      case (Inr result_docs)
      obtain r2 b2 evs2 where rec:
        "convert_all env i ds (if result_docs \<noteq> [] then g @ result_docs else g) b1 = (r2, b2, evs2)"
        by (metis prod_cases3)
      with Pair Inr Cons.prems have "r = r2" "evs = Extract i d # evs2" by auto
      with Cons.IH[OF rec] show ?thesis by auto
    qed
  qed
qed

lemma unit_of_work_events:
  assumes "unit_of_work env i docs b = (r, b', evs)"
  shows "list_all (is_work_for i) evs \<and> evs \<noteq> []
     \<and> (\<forall>gd. r = Inr gd \<longrightarrow> evs = map (Extract i) docs @ [Insert i gd])"
proof -
  obtain r1 b1 evs1 where c: "convert_all env i docs [] b = (r1, b1, evs1)"
    by (metis prod_cases3)
  note ev = convert_all_events[OF c]
  show ?thesis
  proof (cases r1)
    case (Inl err)
    with c assms have "evs = evs1" "r = Inl err" by (auto simp: unit_of_work_def)
    moreover have "docs \<noteq> []" using c Inl by (cases docs) auto
    ultimately show ?thesis using ev by auto
  next
    case (Inr gd)
    obtain r2 b2 where a: "add_graph_documents env b1 gd = (r2, b2)" by (metis surj_pair)
    with c Inr assms have "evs = evs1 @ [Insert i gd]" "r = Inr gd \<or> (\<exists>e. r = Inl e)"
      by (auto simp: unit_of_work_def split: sum.splits)
    then show ?thesis using ev Inr by auto
  qed
qed

section \<open>One iteration\<close>

lemma process_message_skip:
  "msg_id_of msg = [] \<or> is_done (checkpoint w) (msg_id_of msg) \<Longrightarrow>
     process_message env msg w = (None, w, [])"
  by (auto simp: process_message_def Let_def)

lemma process_message_crash:
  assumes "msg_id_of msg \<noteq> []" "\<not> is_done (checkpoint w) (msg_id_of msg)"
    and "assemble (slack_content w) msg = Inl e"
  shows "process_message env msg w
     = (Some e,
        w\<lparr>checkpoint := dict_set (msg_id_of msg) pending_entry (checkpoint w),
          disk := Some (dict_set (msg_id_of msg) pending_entry (checkpoint w))\<rparr>,
        [Assign (msg_id_of msg) pending_entry,
         Persist (dict_set (msg_id_of msg) pending_entry (checkpoint w))])"
  using assms by (simp add: process_message_def Let_def)

lemma process_message_work:
  assumes "msg_id_of msg \<noteq> []" "\<not> is_done (checkpoint w) (msg_id_of msg)"
    and "assemble (slack_content w) msg = Inr content"
    and "unit_of_work env (msg_id_of msg)
           (make_documents (count_tokens env) (msg_id_of msg) content) (backend w)
         = (res, b', wevs)"
  shows "process_message env msg w
     = (None,
        w\<lparr>checkpoint := dict_set (msg_id_of msg)
             (case res of Inl err \<Rightarrow> error_entry err | Inr gd \<Rightarrow> done_entry)
             (dict_set (msg_id_of msg) pending_entry (checkpoint w)),
          disk := Some (dict_set (msg_id_of msg)
             (case res of Inl err \<Rightarrow> error_entry err | Inr gd \<Rightarrow> done_entry)
             (dict_set (msg_id_of msg) pending_entry (checkpoint w))),
          slack_content := Some content, backend := b'\<rparr>,
        [Assign (msg_id_of msg) pending_entry,
         Persist (dict_set (msg_id_of msg) pending_entry (checkpoint w))]
        @ wevs
        @ [Assign (msg_id_of msg) (case res of Inl err \<Rightarrow> error_entry err | Inr gd \<Rightarrow> done_entry),
           Persist (dict_set (msg_id_of msg)
             (case res of Inl err \<Rightarrow> error_entry err | Inr gd \<Rightarrow> done_entry)
             (dict_set (msg_id_of msg) pending_entry (checkpoint w)))])"
  using assms by (cases res) (simp_all add: process_message_def Let_def)

text \<open>The three ways an iteration can go.\<close>

lemma process_message_cases:
  assumes "process_message env msg w = (r, w', evs)"
  obtains
    (skip) "msg_id_of msg = [] \<or> is_done (checkpoint w) (msg_id_of msg)"
      "r = None" "w' = w" "evs = []"
  | (crash) e where "msg_id_of msg \<noteq> []" "\<not> is_done (checkpoint w) (msg_id_of msg)"
      "assemble (slack_content w) msg = Inl e" "r = Some e"
      "w' = w\<lparr>checkpoint := dict_set (msg_id_of msg) pending_entry (checkpoint w),
          disk := Some (dict_set (msg_id_of msg) pending_entry (checkpoint w))\<rparr>"
      "evs = [Assign (msg_id_of msg) pending_entry,
         Persist (dict_set (msg_id_of msg) pending_entry (checkpoint w))]"
  | (work) content res b' wevs where "msg_id_of msg \<noteq> []"
      "\<not> is_done (checkpoint w) (msg_id_of msg)"
      "assemble (slack_content w) msg = Inr content"
      "unit_of_work env (msg_id_of msg)
           (make_documents (count_tokens env) (msg_id_of msg) content) (backend w)
         = (res, b', wevs)"
      "r = None"
      "w' = w\<lparr>checkpoint := dict_set (msg_id_of msg)
             (case res of Inl err \<Rightarrow> error_entry err | Inr gd \<Rightarrow> done_entry)
             (dict_set (msg_id_of msg) pending_entry (checkpoint w)),
          disk := Some (dict_set (msg_id_of msg)
             (case res of Inl err \<Rightarrow> error_entry err | Inr gd \<Rightarrow> done_entry)
             (dict_set (msg_id_of msg) pending_entry (checkpoint w))),
          slack_content := Some content, backend := b'\<rparr>"
      "evs = [Assign (msg_id_of msg) pending_entry,
         Persist (dict_set (msg_id_of msg) pending_entry (checkpoint w))]
        @ wevs
        @ [Assign (msg_id_of msg) (case res of Inl err \<Rightarrow> error_entry err | Inr gd \<Rightarrow> done_entry),
           Persist (dict_set (msg_id_of msg)
             (case res of Inl err \<Rightarrow> error_entry err | Inr gd \<Rightarrow> done_entry)
             (dict_set (msg_id_of msg) pending_entry (checkpoint w)))]"
proof (cases "msg_id_of msg = [] \<or> is_done (checkpoint w) (msg_id_of msg)")
  case True
  with assms process_message_skip[OF True, of env] show ?thesis by (intro skip) auto
next
  case False
  then have ne: "msg_id_of msg \<noteq> []" and nd: "\<not> is_done (checkpoint w) (msg_id_of msg)" by auto
  show ?thesis
  proof (cases "assemble (slack_content w) msg")
    case (Inl e)
    with assms process_message_crash[OF ne nd Inl, of env] show ?thesis
      by (intro crash[of e]) (auto simp: ne nd)
  next
    case (Inr content)
    obtain res b' wevs where u: "unit_of_work env (msg_id_of msg)
           (make_documents (count_tokens env) (msg_id_of msg) content) (backend w)
         = (res, b', wevs)"
      by (metis prod_cases3)
    with assms process_message_work[OF ne nd Inr u] show ?thesis
      by (intro work[of content res b' wevs]) (auto simp: ne nd Inr)
  qed
qed


section \<open>Write-through of the checkpoint\<close>

lemma disk_after_append: "disk_after ck (xs @ ys) = disk_after (disk_after ck xs) ys"
  by (induction ck xs rule: disk_after.induct) simp_all

lemma write_through_append:
  "write_through ck xs \<Longrightarrow> write_through (disk_after ck xs) ys \<Longrightarrow> write_through ck (xs @ ys)"
  by (induction ck xs rule: write_through.induct) simp_all

lemma write_through_work:
  "list_all (is_work_for i) evs \<Longrightarrow> map_of ck i = Some pending_entry \<Longrightarrow>
     write_through ck evs \<and> disk_after ck evs = ck"
proof (induction evs)
  case Nil
  then show ?case by simp
next
  case (Cons e evs)
  then show ?case by (cases e) simp_all
qed

lemma filter_work_other:
  "list_all (is_work_for j) evs \<Longrightarrow> i \<noteq> j \<Longrightarrow> filter (is_work_for i) evs = []"
proof (induction evs)
  case Nil
  then show ?case by simp
next
  case (Cons e evs)
  then show ?case by (cases e) simp_all
qed

lemma process_message_write_through:
  assumes "process_message env msg w = (r, w', evs)"
  shows "write_through (checkpoint w) evs \<and> disk_after (checkpoint w) evs = checkpoint w'
     \<and> (evs \<noteq> [] \<longrightarrow> disk w' = Some (checkpoint w')) \<and> (evs = [] \<longrightarrow> disk w' = disk w)"
  using assms
proof (cases rule: process_message_cases)
  case skip
  then show ?thesis by simp
next
  case (crash e)
  then show ?thesis by simp
next
  case (work content res b' wevs)
  let ?i = "msg_id_of msg"
  let ?ck1 = "dict_set ?i pending_entry (checkpoint w)"
  let ?final = "case res of Inl err \<Rightarrow> error_entry err | Inr gd \<Rightarrow> done_entry"
  let ?ck2 = "dict_set ?i ?final ?ck1"
  have "list_all (is_work_for ?i) wevs"
    using unit_of_work_events[OF work(4)] by simp
  moreover have "map_of ?ck1 ?i = Some pending_entry"
    by (simp add: map_of_dict_set)
  ultimately have w1: "write_through ?ck1 wevs" and d1: "disk_after ?ck1 wevs = ?ck1"
    using write_through_work by blast+
  have "write_through ?ck1 (wevs @ [Assign ?i ?final, Persist ?ck2])"
    by (rule write_through_append) (simp_all add: w1 d1)
  moreover have "disk_after ?ck1 (wevs @ [Assign ?i ?final, Persist ?ck2]) = ?ck2"
    by (simp add: disk_after_append)
  ultimately show ?thesis using work(6,7) by simp
qed

lemma process_messages_Cons_cases:
  assumes "process_messages env (m # ms) w = (r, w', evs)"
  obtains
    (stop) e where "process_message env m w = (Some e, w', evs)" "r = Some e"
  | (go) w1 evs1 evs2 where "process_message env m w = (None, w1, evs1)"
      "process_messages env ms w1 = (r, w', evs2)" "evs = evs1 @ evs2"
proof -
  obtain r1 w1 evs1 where s: "process_message env m w = (r1, w1, evs1)"
    by (metis prod_cases3)
  show ?thesis
  proof (cases r1)
    case None
    obtain r2 w2 evs2 where t: "process_messages env ms w1 = (r2, w2, evs2)"
      by (metis prod_cases3)
    with s None assms show ?thesis by (intro go[of w1 evs1 evs2]) auto
  next
    case (Some e)
    with s assms show ?thesis by (intro stop[of e]) auto
  qed
qed

lemma process_messages_write_through:
  "process_messages env msgs w = (r, w', evs) \<Longrightarrow>
     write_through (checkpoint w) evs \<and> disk_after (checkpoint w) evs = checkpoint w'
     \<and> (evs \<noteq> [] \<longrightarrow> disk w' = Some (checkpoint w')) \<and> (evs = [] \<longrightarrow> disk w' = disk w)"
proof (induction msgs arbitrary: w r w' evs)
  case Nil
  then show ?case by simp
next
  case (Cons m ms)
  from Cons.prems show ?case
  proof (cases rule: process_messages_Cons_cases)
    case (stop e)
    then show ?thesis using process_message_write_through by blast
  next
    case (go w1 evs1 evs2)
    note a = process_message_write_through[OF go(1)]
    note b = Cons.IH[OF go(2)]
    have "write_through (checkpoint w) (evs1 @ evs2)"
      using a b by (intro write_through_append) simp_all
    moreover have "disk_after (checkpoint w) (evs1 @ evs2) = checkpoint w'"
      using a b by (simp add: disk_after_append)
    moreover have "evs1 @ evs2 \<noteq> [] \<longrightarrow> disk w' = Some (checkpoint w')"
      using a b by (cases "evs2 = []") auto
    moreover have "evs1 @ evs2 = [] \<longrightarrow> disk w' = disk w"
      using a b by simp
    ultimately show ?thesis using go(3) by simp
  qed
qed

section \<open>Done items are skipped, the others are attempted\<close>

lemma process_message_done_kept:
  assumes "process_message env msg w = (r, w', evs)" and "is_done (checkpoint w) i"
  shows "is_done (checkpoint w') i \<and> filter (is_work_for i) evs = []"
  using assms(1)
proof (cases rule: process_message_cases)
  case skip
  then show ?thesis using assms(2) by simp
next
  case (crash e)
  then have "i \<noteq> msg_id_of msg" using assms(2) by auto
  then show ?thesis using crash assms(2) by (simp add: is_done_dict_set_other)
next
  case (work content res b' wevs)
  then have ne: "i \<noteq> msg_id_of msg" using assms(2) by auto
  have "list_all (is_work_for (msg_id_of msg)) wevs"
    using unit_of_work_events[OF work(4)] by simp
  then have "filter (is_work_for i) wevs = []"
    using ne by (rule filter_work_other)
  then show ?thesis using work(6,7) ne assms(2) by (simp add: is_done_dict_set_other)
qed

lemma process_message_frame:
  assumes "process_message env msg w = (r, w', evs)" and "i \<noteq> msg_id_of msg"
  shows "is_done (checkpoint w') i = is_done (checkpoint w) i"
  using assms(1)
  by (cases rule: process_message_cases) (simp_all add: is_done_dict_set_other assms(2))

lemma process_message_attempt:
  assumes "process_message env msg w = (None, w', evs)"
    and "msg_id_of msg \<noteq> []" and "\<not> is_done (checkpoint w) (msg_id_of msg)"
  shows "\<exists>e\<in>set evs. is_work_for (msg_id_of msg) e"
  using assms(1)
proof (cases rule: process_message_cases)
  case skip
  then show ?thesis using assms(2,3) by simp
next
  case (crash e)
  then show ?thesis by simp
next
  case (work content res b' wevs)
  have "list_all (is_work_for (msg_id_of msg)) wevs" and "wevs \<noteq> []"
    using unit_of_work_events[OF work(4)] by simp_all
  then have "\<exists>e\<in>set wevs. is_work_for (msg_id_of msg) e"
    by (cases wevs) simp_all
  then show ?thesis using work(7) by auto
qed

lemma run_done_untouched:
  "process_messages env msgs w = (r, w', evs) \<Longrightarrow> is_done (checkpoint w) i \<Longrightarrow>
     filter (is_work_for i) evs = [] \<and> is_done (checkpoint w') i"
proof (induction msgs arbitrary: w r w' evs)
  case Nil
  then show ?case by simp
next
  case (Cons m ms)
  from Cons.prems(1) show ?case
  proof (cases rule: process_messages_Cons_cases)
    case (stop e)
    then show ?thesis using process_message_done_kept Cons.prems(2) by blast
  next
    case (go w1 evs1 evs2)
    note a = process_message_done_kept[OF go(1) Cons.prems(2)]
    with Cons.IH[OF go(2)] go(3) show ?thesis by simp
  qed
qed

lemma run_all_done:
  "(\<forall>m\<in>set msgs. msg_id_of m \<noteq> [] \<longrightarrow> is_done (checkpoint w) (msg_id_of m)) \<Longrightarrow>
     process_messages env msgs w = (None, w, [])"
proof (induction msgs)
  case Nil
  then show ?case by simp
next
  case (Cons m ms)
  then have "process_message env m w = (None, w, [])"
    by (intro process_message_skip) auto
  with Cons show ?case by simp
qed

lemma run_attempts:
  "process_messages env msgs w = (None, w', evs) \<Longrightarrow> m \<in> set msgs \<Longrightarrow>
     msg_id_of m \<noteq> [] \<Longrightarrow> \<not> is_done (checkpoint w) (msg_id_of m) \<Longrightarrow>
     \<exists>e\<in>set evs. is_work_for (msg_id_of m) e"
proof (induction msgs arbitrary: w w' evs)
  case Nil
  then show ?case by simp
next
  case (Cons m0 ms)
  from Cons.prems(1) show ?case
  proof (cases rule: process_messages_Cons_cases)
    case (stop e)
    then show ?thesis by simp
  next
    case (go w1 evs1 evs2)
    show ?thesis
    proof (cases "msg_id_of m = msg_id_of m0")
      case True
      then have "\<exists>e\<in>set evs1. is_work_for (msg_id_of m) e"
        using process_message_attempt[OF go(1)] Cons.prems(3,4) by simp
      then show ?thesis using go(3) by auto
    next
      case False
      then have "m \<in> set ms" using Cons.prems(2) by auto
      moreover have "\<not> is_done (checkpoint w1) (msg_id_of m)"
        using process_message_frame[OF go(1) False] Cons.prems(4) by simp
      ultimately have "\<exists>e\<in>set evs2. is_work_for (msg_id_of m) e"
        using Cons.IH[OF go(2)] Cons.prems(3) by blast
      then show ?thesis using go(3) by auto
    qed
  qed
qed

text \<open>
  Claim C2. In every run, whatever its outcome, each assignment to the checkpoint
  (\<open>pending\<close>, \<open>done\<close> or \<open>error\<close>) is followed at once by a dump of the whole updated
  store; every backend call for a message happens while the store on disk has that
  message as \<open>pending\<close>; and at the end of the run the file holds the checkpoint that is
  in memory (it is untouched when the run assigned nothing).
\<close>

theorem checkpoint_write_through:
  assumes "graph_builder env msgs f b = (r, w', evs)"
  shows "write_through (load_checkpoint f) evs
     \<and> disk_after (load_checkpoint f) evs = checkpoint w'
     \<and> disk w' = (if evs = [] then f else Some (checkpoint w'))
     \<and> load_checkpoint (disk w') = checkpoint w'"
proof -
  let ?w = "\<lparr>checkpoint = load_checkpoint f, disk = f, slack_content = None, backend = b\<rparr>"
  have run: "process_messages env msgs ?w = (r, w', evs)"
    using assms by (simp add: graph_builder_def)
  note wt = process_messages_write_through[OF run]
  then show ?thesis by (cases "evs = []") (auto simp: load_checkpoint_def)
qed

text \<open>
  Done items. In every run, no extraction or insertion is invoked for an id that the loaded
  checkpoint has as \<open>done\<close>; when every message with an id is \<open>done\<close> the run does
  nothing at all; a run started from the file left by a run after which every message
  with an id is \<open>done\<close> does nothing, whatever the backends; and in a run that reaches
  the end of the list, the unit of work is invoked for every message with an id whose
  status in the loaded checkpoint is not \<open>done\<close> (\<open>pending\<close>, \<open>error\<close> or absent).
\<close>

theorem done_items_not_reprocessed:
  assumes "graph_builder env msgs f b = (r, w', evs)"
  shows "(\<forall>i. is_done (load_checkpoint f) i \<longrightarrow> filter (is_work_for i) evs = [])
     \<and> ((\<forall>m\<in>set msgs. msg_id_of m \<noteq> [] \<longrightarrow> is_done (load_checkpoint f) (msg_id_of m))
          \<longrightarrow> r = None \<and> evs = [])
     \<and> ((\<forall>m\<in>set msgs. msg_id_of m \<noteq> [] \<longrightarrow> is_done (checkpoint w') (msg_id_of m))
          \<longrightarrow> graph_builder env2 msgs (disk w') b2
              = (None, \<lparr>checkpoint = checkpoint w', disk = disk w', slack_content = None,
                        backend = b2\<rparr>, []))
     \<and> (r = None \<longrightarrow>
          (\<forall>m\<in>set msgs. msg_id_of m \<noteq> [] \<and> \<not> is_done (load_checkpoint f) (msg_id_of m)
             \<longrightarrow> (\<exists>e\<in>set evs. is_work_for (msg_id_of m) e)))"
proof -
  let ?w = "\<lparr>checkpoint = load_checkpoint f, disk = f, slack_content = None, backend = b\<rparr>"
  have run: "process_messages env msgs ?w = (r, w', evs)"
    using assms by (simp add: graph_builder_def)
  have a: "\<forall>i. is_done (load_checkpoint f) i \<longrightarrow> filter (is_work_for i) evs = []"
    using run_done_untouched[OF run] by simp
  have b: "(\<forall>m\<in>set msgs. msg_id_of m \<noteq> [] \<longrightarrow> is_done (load_checkpoint f) (msg_id_of m))
          \<longrightarrow> r = None \<and> evs = []"
    using run_all_done[of msgs ?w env] run by simp
  have "load_checkpoint (disk w') = checkpoint w'"
    using process_messages_write_through[OF run]
    by (cases "evs = []") (auto simp: load_checkpoint_def)
  then have c: "(\<forall>m\<in>set msgs. msg_id_of m \<noteq> [] \<longrightarrow> is_done (checkpoint w') (msg_id_of m))
          \<longrightarrow> graph_builder env2 msgs (disk w') b2
              = (None, \<lparr>checkpoint = checkpoint w', disk = disk w', slack_content = None,
                        backend = b2\<rparr>, [])"
    using run_all_done[of msgs
        "\<lparr>checkpoint = checkpoint w', disk = disk w', slack_content = None, backend = b2\<rparr>" env2]
    by (simp add: graph_builder_def)
  have d: "r = None \<longrightarrow>
          (\<forall>m\<in>set msgs. msg_id_of m \<noteq> [] \<and> \<not> is_done (load_checkpoint f) (msg_id_of m)
             \<longrightarrow> (\<exists>e\<in>set evs. is_work_for (msg_id_of m) e))"
    using run_attempts[of env msgs ?w w' evs] run by simp
  from a b c d show ?thesis by blast
qed

section \<open>Failures of one item\<close>

text \<open>
  A failure raised by the extraction or by the insertion is caught: the iteration ends
  normally with an \<open>error\<close> entry that carries the message, dumped to the file.
\<close>

lemma backend_failure_recorded:
  assumes "msg_id_of msg \<noteq> []" "\<not> is_done (checkpoint w) (msg_id_of msg)"
    and "assemble (slack_content w) msg = Inr content"
    and "unit_of_work env (msg_id_of msg)
           (make_documents (count_tokens env) (msg_id_of msg) content) (backend w)
         = (Inl err, b', wevs)"
  shows "\<exists>w' evs. process_message env msg w = (None, w', evs)
     \<and> map_of (checkpoint w') (msg_id_of msg) = Some (error_entry err)
     \<and> disk w' = Some (checkpoint w')"
  using process_message_work[OF assms] by (simp add: map_of_dict_set)

lemmas run_eval =
  graph_builder_def process_message_def Let_def msg_id_of_def or_empty_def is_done_def
  load_checkpoint_def assemble_def assemble_root_def extract_merge_text_def
  extract_files_links_def make_documents_def token_limit_def unit_of_work_def
  sample_backends_def mk_document_def pending_entry_def done_entry_def error_entry_def

text \<open>
  Claim C3 does not hold for a failure raised before \<open>try\<close>. The first message has an
  empty text, so \<open>slack_content\<close> is still unbound when line 124 reads it: the
  \<open>NameError\<close> leaves the loop, the first message stays \<open>pending\<close> and the second
  message is never processed, for every backend.
\<close>

theorem empty_text_aborts_batch:
  "graph_builder env
     [Message (Some ''1'') (Some []) [Some ''chart''] [],
      Message (Some ''2'') (Some ''hi'') [] []] None b
   = (Some NameError,
      \<lparr>checkpoint = [(''1'', pending_entry)], disk = Some [(''1'', pending_entry)],
       slack_content = None, backend = b\<rparr>,
      [Assign ''1'' pending_entry, Persist [(''1'', pending_entry)]])"
  by (simp add: graph_builder_def process_message_def Let_def msg_id_of_def or_empty_def
      is_done_def load_checkpoint_def assemble_def assemble_root_def)

theorem checkpoint_write_through_witness:
  "graph_builder sample_backends
     [Message (Some ''1'') (Some ''bad'') [] [], Message (Some ''2'') (Some ''ok'') [] []] None 0
   = (None,
      \<lparr>checkpoint = [(''1'', error_entry ''extraction failed''), (''2'', done_entry)],
       disk = Some [(''1'', error_entry ''extraction failed''), (''2'', done_entry)],
       slack_content = Some ''ok'', backend = 3\<rparr>,
      [Assign ''1'' pending_entry, Persist [(''1'', pending_entry)],
       Extract ''1'' (mk_document ''bad'' ''1''),
       Assign ''1'' (error_entry ''extraction failed''),
       Persist [(''1'', error_entry ''extraction failed'')],
       Assign ''2'' pending_entry,
       Persist [(''1'', error_entry ''extraction failed''), (''2'', pending_entry)],
       Extract ''2'' (mk_document ''ok'' ''2''), Insert ''2'' [''ok''],
       Assign ''2'' done_entry,
       Persist [(''1'', error_entry ''extraction failed''), (''2'', done_entry)]])
   \<and> write_through []
       [Assign ''1'' pending_entry, Persist [(''1'', pending_entry)],
        Extract ''1'' (mk_document ''bad'' ''1''),
        Assign ''1'' (error_entry ''extraction failed''),
        Persist [(''1'', error_entry ''extraction failed'')],
        Assign ''2'' pending_entry,
        Persist [(''1'', error_entry ''extraction failed''), (''2'', pending_entry)],
        Extract ''2'' (mk_document ''ok'' ''2''), Insert ''2'' [''ok''],
        Assign ''2'' done_entry,
        Persist [(''1'', error_entry ''extraction failed''), (''2'', done_entry)]]"
proof -
  have run: "graph_builder sample_backends
     [Message (Some ''1'') (Some ''bad'') [] [], Message (Some ''2'') (Some ''ok'') [] []] None 0
   = (None,
      \<lparr>checkpoint = [(''1'', error_entry ''extraction failed''), (''2'', done_entry)],
       disk = Some [(''1'', error_entry ''extraction failed''), (''2'', done_entry)],
       slack_content = Some ''ok'', backend = 3\<rparr>,
      [Assign ''1'' pending_entry, Persist [(''1'', pending_entry)],
       Extract ''1'' (mk_document ''bad'' ''1''),
       Assign ''1'' (error_entry ''extraction failed''),
       Persist [(''1'', error_entry ''extraction failed'')],
       Assign ''2'' pending_entry,
       Persist [(''1'', error_entry ''extraction failed''), (''2'', pending_entry)],
       Extract ''2'' (mk_document ''ok'' ''2''), Insert ''2'' [''ok''],
       Assign ''2'' done_entry,
       Persist [(''1'', error_entry ''extraction failed''), (''2'', done_entry)]])"
    by (simp add: run_eval)
  show ?thesis
    using checkpoint_write_through[OF run] run by (simp add: load_checkpoint_def)
qed

theorem done_items_not_reprocessed_witness:
  "graph_builder sample_backends
     [Message (Some ''1'') (Some ''hi'') [] [], Message (Some ''2'') (Some ''yo'') [] []]
     (Some [(''2'', done_entry)]) 0
   = (None,
      \<lparr>checkpoint = [(''2'', done_entry), (''1'', done_entry)],
       disk = Some [(''2'', done_entry), (''1'', done_entry)],
       slack_content = Some ''hi'', backend = 2\<rparr>,
      [Assign ''1'' pending_entry, Persist [(''2'', done_entry), (''1'', pending_entry)],
       Extract ''1'' (mk_document ''hi'' ''1''), Insert ''1'' [''hi''],
       Assign ''1'' done_entry, Persist [(''2'', done_entry), (''1'', done_entry)]])
   \<and> is_done (load_checkpoint (Some [(''2'', done_entry)])) ''2''
   \<and> \<not> is_done (load_checkpoint (Some [(''2'', done_entry)])) ''1''
   \<and> graph_builder sample_backends
       [Message (Some ''1'') (Some ''hi'') [] [], Message (Some ''2'') (Some ''yo'') [] []]
       (Some [(''2'', done_entry), (''1'', done_entry)]) 7
     = (None,
        \<lparr>checkpoint = [(''2'', done_entry), (''1'', done_entry)],
         disk = Some [(''2'', done_entry), (''1'', done_entry)],
         slack_content = None, backend = 7\<rparr>, [])"
proof -
  have run: "graph_builder sample_backends
     [Message (Some ''1'') (Some ''hi'') [] [], Message (Some ''2'') (Some ''yo'') [] []]
     (Some [(''2'', done_entry)]) 0
   = (None,
      \<lparr>checkpoint = [(''2'', done_entry), (''1'', done_entry)],
       disk = Some [(''2'', done_entry), (''1'', done_entry)],
       slack_content = Some ''hi'', backend = 2\<rparr>,
      [Assign ''1'' pending_entry, Persist [(''2'', done_entry), (''1'', pending_entry)],
       Extract ''1'' (mk_document ''hi'' ''1''), Insert ''1'' [''hi''],
       Assign ''1'' done_entry, Persist [(''2'', done_entry), (''1'', done_entry)]])"
    by (simp add: run_eval)
  have d: "is_done [(''2'', done_entry), (''1'', done_entry)] ''1''"
    "is_done [(''2'', done_entry), (''1'', done_entry)] ''2''"
    "is_done (load_checkpoint (Some [(''2'', done_entry)])) ''2''"
    "\<not> is_done (load_checkpoint (Some [(''2'', done_entry)])) ''1''"
    by (simp_all add: is_done_def done_entry_def load_checkpoint_def)
  show ?thesis
    using done_items_not_reprocessed[OF run, of sample_backends 7] run d
    by (simp add: msg_id_of_def or_empty_def)
qed

section \<open>Paragraph packing\<close>









section \<open>The content of a message that has a text\<close>



section \<open>Every sub-unit is submitted before the item is marked done\<close>




section \<open>A paragraph above the limit\<close>










lemmas chunk_eval =
  graph_builder_def process_message_def Let_def msg_id_of_def or_empty_def is_done_def
  load_checkpoint_def assemble_def assemble_root_def extract_merge_text_def
  extract_files_links_def make_documents_def token_limit_def unit_of_work_def
  sample_backends_def mk_document_def pending_entry_def done_entry_def error_entry_def
  split_paragraphs_def strip_def lstrip_def rstrip_def is_space_def


text \<open>
  The flush also happens when the next paragraph brings the count exactly to the limit:
  2000 and 1000 tokens are not packed together.
\<close>

lemma flush_at_equality_example:
  "count_tokens sample_backends ''ab'' + count_tokens sample_backends ''c'' = token_limit
   \<and> map page_content
       (make_documents (count_tokens sample_backends) ''7'' (''ab'' @ [NL, NL] @ ''c''))
     = [''ab'', ''c'']"
  by (simp add: chunk_eval)

text \<open>
  Claim C1 does not hold for the items behind an item whose processing leaves the loop.
  The run starts from the file in which item 1 is \<open>pending\<close>, as an earlier run has
  left it. Item 1 has no text, so the \<open>NameError\<close> of line 124 leaves the loop again:
  neither the pending item 1 nor the absent item 2 gets an extraction or an insertion,
  the file is as before, and every later run does the same, for every backend.
\<close>

theorem pending_item_blocked_by_abort:
  "graph_builder env
     [Message (Some ''1'') (Some []) [Some ''chart''] [],
      Message (Some ''2'') (Some ''hi'') [] []] (Some [(''1'', pending_entry)]) b
   = (Some NameError,
      \<lparr>checkpoint = [(''1'', pending_entry)], disk = Some [(''1'', pending_entry)],
       slack_content = None, backend = b\<rparr>,
      [Assign ''1'' pending_entry, Persist [(''1'', pending_entry)]])
   \<and> \<not> is_done (load_checkpoint (Some [(''1'', pending_entry)])) ''1''
   \<and> \<not> is_done (load_checkpoint (Some [(''1'', pending_entry)])) ''2''
   \<and> filter is_work
       (snd (snd (graph_builder env
          [Message (Some ''1'') (Some []) [Some ''chart''] [],
           Message (Some ''2'') (Some ''hi'') [] []] (Some [(''1'', pending_entry)]) b)))
     = []"
  by (simp add: graph_builder_def process_message_def Let_def msg_id_of_def or_empty_def
      is_done_def load_checkpoint_def assemble_def assemble_root_def pending_entry_def)

end
